theory Spec2Isabelle
  imports Main "HOL-Library.Word"
begin

section \<open>The C implementation: characters, streams, fatal errors\<close>

text \<open>
  \<^verbatim>\<open>chat.c\<close> drives a child shell over two stdio streams. A byte of either stream is a
  \<^typ>\<open>char\<close> (HOL's 8-bit character type), a byte sequence a \<^typ>\<open>string\<close>.

  Two things the file leaves to its surroundings are parameters of the model:
  whether the C type \<^verbatim>\<open>char\<close> is signed (it is with the x86 ABIs, it is not with the ARM
  ones), and which bytes \<^verbatim>\<open>growable_string_trim_trailing_whitespace\<close> (of \<^verbatim>\<open>util.c\<close>)
  takes for whitespace.
\<close>

record platform =
  char_signed :: bool
  isspace :: "char \<Rightarrow> bool"

text \<open>The value of a \<^verbatim>\<open>char\<close> once promoted to \<^verbatim>\<open>int\<close>, and stdio's \<^verbatim>\<open>EOF\<close>.\<close>

definition int_of_char :: "platform \<Rightarrow> char \<Rightarrow> int" where
  "int_of_char P c =
     (if char_signed P \<and> 128 \<le> (of_char c :: int) then of_char c - 256 else of_char c)"

definition EOF :: int where
  "EOF = - 1"

definition ESC :: char where
  "ESC = CHR 0x1B"

text \<open>
  Every failure of \<^verbatim>\<open>chat.c\<close> is a call of \<^verbatim>\<open>die(ECOMM, fmt, ...)\<close>, which does not return.
  The model keeps the error code and the message: \<open>Text\<close> is a formatted message,
  \<open>Expected_found e c\<close> stands for the message of \<^verbatim>\<open>chat_expect\<close>, built from the expected
  byte \<open>e\<close> and the byte \<open>c\<close> that was read.
\<close>

datatype errno = ECOMM

datatype message = Text string | Expected_found char char

datatype fatal = Die errno message

text \<open>
  The outbound stream \<^verbatim>\<open>cc->to\<close>: the bytes still in the stdio buffer, the bytes handed to
  the descriptor, and how many more operations the descriptor accepts before one returns
  \<^verbatim>\<open>EOF\<close> (\<open>None\<close>: it never fails). An operation that fails yields \<open>None\<close>.
\<close>

record ostream =
  buffered :: string
  sent :: string
  credit :: "nat option"

definition stream_op :: "ostream \<Rightarrow> ostream option" where
  "stream_op os =
     (case credit os of
        None \<Rightarrow> Some os
      | Some 0 \<Rightarrow> None
      | Some (Suc k) \<Rightarrow> Some (os\<lparr>credit := Some k\<rparr>))"

definition fputs :: "string \<Rightarrow> ostream \<Rightarrow> ostream option" where
  "fputs s os =
     (case stream_op os of
        None \<Rightarrow> None
      | Some os' \<Rightarrow> Some (os'\<lparr>buffered := buffered os' @ s\<rparr>))"

definition putc :: "char \<Rightarrow> ostream \<Rightarrow> ostream option" where
  "putc c os =
     (case stream_op os of
        None \<Rightarrow> None
      | Some os' \<Rightarrow> Some (os'\<lparr>buffered := buffered os' @ [c]\<rparr>))"

definition fflush :: "ostream \<Rightarrow> ostream option" where
  "fflush os =
     (case stream_op os of
        None \<Rightarrow> None
      | Some os' \<Rightarrow> Some (os'\<lparr>sent := sent os' @ buffered os', buffered := []\<rparr>))"

text \<open>The outbound stream accepts the next \<open>n\<close> operations.\<close>

definition accepts :: "nat \<Rightarrow> ostream \<Rightarrow> bool" where
  "accepts n os = (case credit os of None \<Rightarrow> True | Some k \<Rightarrow> n \<le> k)"

text \<open>
  The inbound stream \<^verbatim>\<open>cc->from\<close> is the list of the bytes not read yet; the empty list is
  end of input. \<^verbatim>\<open>ungetc(c, f)\<close> takes an \<^verbatim>\<open>int\<close>: it pushes the byte back, unless the value
  it is given equals \<^verbatim>\<open>EOF\<close>, in which case it fails and leaves the stream as it is
  (ISO C, 7.21.7.10).
\<close>

definition getc :: "string \<Rightarrow> (char \<times> string) option" where
  "getc f = (case f of [] \<Rightarrow> None | c # f' \<Rightarrow> Some (c, f'))"

definition ungetc :: "int \<Rightarrow> string \<Rightarrow> string" where
  "ungetc i f = (if i = EOF then f else char_of i # f)"

section \<open>The session and the read primitives\<close>

record chat =
  chat_to :: ostream
  chat_from :: string

definition chat_die :: "fatal + 'a" where
  "chat_die = Inl (Die ECOMM (Text ''lost connection to child''))"

definition chat_getc :: "chat \<Rightarrow> fatal + (char \<times> chat)" where
  "chat_getc cc =
     (case getc (chat_from cc) of
        None \<Rightarrow> chat_die
      | Some (c, f) \<Rightarrow> Inr (c, cc\<lparr>chat_from := f\<rparr>))"

definition chat_expect :: "chat \<Rightarrow> char \<Rightarrow> fatal + chat" where
  "chat_expect cc expected =
     (case chat_getc cc of
        Inl e \<Rightarrow> Inl e
      | Inr (c, cc') \<Rightarrow>
          if c \<noteq> expected then Inl (Die ECOMM (Expected_found expected c)) else Inr cc')"

text \<open>
  \<^verbatim>\<open>chat_expect_maybe\<close> keeps the byte in a \<^verbatim>\<open>char\<close> and hands that \<^verbatim>\<open>char\<close> to
  \<^verbatim>\<open>ungetc\<close>, so the value pushed back is the promoted one.
\<close>

definition chat_expect_maybe :: "platform \<Rightarrow> chat \<Rightarrow> char \<Rightarrow> fatal + (bool \<times> chat)" where
  "chat_expect_maybe P cc expected =
     (case chat_getc cc of
        Inl e \<Rightarrow> Inl e
      | Inr (c, cc') \<Rightarrow>
          if c \<noteq> expected
          then Inr (False, cc'\<lparr>chat_from := ungetc (int_of_char P c) (chat_from cc')\<rparr>)
          else Inr (True, cc'))"

section \<open>The prompt scanner\<close>

datatype scan_state = S_NORMAL | S_AFTER_ESC | S_AFTER_CSI

text \<open>The locals of \<^verbatim>\<open>chat_swallow_prompt\<close>; \<^verbatim>\<open>csi_arg\<close> is an \<^verbatim>\<open>unsigned\<close>, 32 bits wide.\<close>

record scanner =
  csi_arg :: "32 word"
  state :: scan_state
  pre_prompt :: string

definition scanner_init :: scanner where
  "scanner_init = \<lparr>csi_arg = 0, state = S_NORMAL, pre_prompt = []\<rparr>"

text \<open>
  Modelled from the spec: \<^verbatim>\<open>growable_string_trim_trailing_whitespace\<close> and
  \<^verbatim>\<open>growable_string_c_str\<close> belong to \<^verbatim>\<open>util.c\<close>, which is not among the sources, as
  does \<^verbatim>\<open>die\<close>. The spec has them as the trimming of trailing whitespace and the
  stringification of a growable buffer, and has the scanner report the contents of the
  buffer: the message of \<^verbatim>\<open>die(ECOMM, "%s", growable_string_c_str(&pre_prompt))\<close> is the
  bytes of the buffer.
\<close>

definition growable_string_trim_trailing_whitespace :: "platform \<Rightarrow> string \<Rightarrow> string" where
  "growable_string_trim_trailing_whitespace P s = rev (dropWhile (isspace P) (rev s))"

definition growable_string_c_str :: "string \<Rightarrow> string" where
  "growable_string_c_str s = s"

text \<open>\<^verbatim>\<open>'0' <= c && c <= '9'\<close>: the same bytes whether \<^verbatim>\<open>char\<close> is signed or not.\<close>

definition is_digit :: "char \<Rightarrow> bool" where
  "is_digit c = ((48::nat) \<le> of_char c \<and> (of_char c :: nat) \<le> 57)"

text \<open>
  The \<^verbatim>\<open>switch (state)\<close> of the loop body, reached with a byte that is neither \<^verbatim>\<open>#\<close> nor
  \<^verbatim>\<open>$\<close>. It returns the locals and the outbound stream.
\<close>

definition swallow_switch :: "scanner \<Rightarrow> ostream \<Rightarrow> char \<Rightarrow> fatal + (scanner \<times> ostream)" where
  "swallow_switch sc out c =
     (case state sc of
        S_NORMAL \<Rightarrow>
          if c = ESC then Inr (sc\<lparr>state := S_AFTER_ESC\<rparr>, out)
          else Inr (sc\<lparr>pre_prompt := pre_prompt sc @ [c]\<rparr>, out)
      | S_AFTER_ESC \<Rightarrow>
          if c = CHR ''['' then Inr (sc\<lparr>state := S_AFTER_CSI, csi_arg := 0\<rparr>, out)
          else Inr (sc\<lparr>state := S_NORMAL\<rparr>, out)
      | S_AFTER_CSI \<Rightarrow>
          if is_digit c
          then Inr (sc\<lparr>csi_arg := 10 * csi_arg sc + of_char c - of_char (CHR ''0'')\<rparr>, out)
          else if c = CHR ''n''
          then (case (if csi_arg sc = 5 then fputs (ESC # ''[0n'') out
                      else if csi_arg sc = 6 then fputs (ESC # ''[25;80R'') out
                      else Some out) of
                  None \<Rightarrow> chat_die
                | Some out1 \<Rightarrow>
                    (case fflush out1 of
                       None \<Rightarrow> chat_die
                     | Some out2 \<Rightarrow> Inr (sc\<lparr>state := S_NORMAL\<rparr>, out2)))
          else Inr (sc\<lparr>state := S_NORMAL\<rparr>, out))"

text \<open>
  The \<^verbatim>\<open>for (;;)\<close> loop, from the locals \<open>sc\<close>: it reads the inbound bytes one by one and
  returns, at the \<^verbatim>\<open>break\<close>, the inbound bytes left and the outbound stream.
\<close>

fun swallow_loop :: "platform \<Rightarrow> scanner \<Rightarrow> string \<Rightarrow> ostream \<Rightarrow> fatal + (string \<times> ostream)" where
  "swallow_loop P sc [] out =
     (let trimmed = growable_string_trim_trailing_whitespace P (pre_prompt sc)
      in if length trimmed = 0 then chat_die
         else Inl (Die ECOMM (Text (growable_string_c_str trimmed))))"
| "swallow_loop P sc (c # rest) out =
     (if c = CHR ''#'' \<or> c = CHR ''$'' then Inr (rest, out)
      else case swallow_switch sc out c of
             Inl e \<Rightarrow> Inl e
           | Inr (sc', out') \<Rightarrow> swallow_loop P sc' rest out')"

text \<open>
  The body of \<^verbatim>\<open>chat_swallow_prompt\<close> from given locals (the loop, then
  \<^verbatim>\<open>chat_expect(cc, ' ')\<close>), and the function itself, which starts from the initial locals.
\<close>

definition swallow_prompt_from :: "platform \<Rightarrow> scanner \<Rightarrow> chat \<Rightarrow> fatal + chat" where
  "swallow_prompt_from P sc cc =
     (case swallow_loop P sc (chat_from cc) (chat_to cc) of
        Inl e \<Rightarrow> Inl e
      | Inr (f, out) \<Rightarrow> chat_expect \<lparr>chat_to = out, chat_from = f\<rparr> (CHR '' ''))"

definition chat_swallow_prompt :: "platform \<Rightarrow> chat \<Rightarrow> fatal + chat" where
  "chat_swallow_prompt P cc = swallow_prompt_from P scanner_init cc"

section \<open>The command and echo protocol\<close>

text \<open>
  Modelled from the spec: \<^verbatim>\<open>CHAT_SWALLOW_PROMPT\<close> is declared in \<^verbatim>\<open>chat.h\<close>, which is not
  among the sources; the spec has it as the one recognised flag of a bitset.
\<close>

definition CHAT_SWALLOW_PROMPT :: int where
  "CHAT_SWALLOW_PROMPT = 1"

text \<open>\<^verbatim>\<open>while (*what) chat_expect(cc, *what++);\<close>\<close>

fun chat_expect_each :: "chat \<Rightarrow> string \<Rightarrow> fatal + chat" where
  "chat_expect_each cc [] = Inr cc"
| "chat_expect_each cc (c # what) =
     (case chat_expect cc c of
        Inl e \<Rightarrow> Inl e
      | Inr cc' \<Rightarrow> chat_expect_each cc' what)"

text \<open>
  The three writes of \<^verbatim>\<open>chat_talk_at\<close>: the command, a newline, a flush.
\<close>

definition talk_send :: "string \<Rightarrow> ostream \<Rightarrow> fatal + ostream" where
  "talk_send what out =
     (case fputs what out of
        None \<Rightarrow> chat_die
      | Some out1 \<Rightarrow>
          (case putc (CHR 0x0A) out1 of
             None \<Rightarrow> chat_die
           | Some out2 \<Rightarrow>
               (case fflush out2 of
                  None \<Rightarrow> chat_die
                | Some out3 \<Rightarrow> Inr out3)))"

text \<open>
  The status-query race on the first echoed byte. It returns the session and the part of
  \<open>what\<close> whose echo is still to be read.
\<close>

definition talk_first :: "platform \<Rightarrow> chat \<Rightarrow> string \<Rightarrow> int \<Rightarrow> fatal + (chat \<times> string)" where
  "talk_first P cc what flags =
     (if and flags CHAT_SWALLOW_PROMPT \<noteq> 0 \<and> what \<noteq> []
      then case chat_expect_maybe P cc (hd what) of
             Inl e \<Rightarrow> Inl e
           | Inr (True, cc1) \<Rightarrow> Inr (cc1, tl what)
           | Inr (False, cc1) \<Rightarrow>
               (case chat_expect_maybe P cc1 ESC of
                  Inl e \<Rightarrow> Inl e
                | Inr (False, cc2) \<Rightarrow> Inr (cc2, what)
                | Inr (True, cc2) \<Rightarrow>
                    (case chat_expect cc2 (CHR ''['') of
                       Inl e \<Rightarrow> Inl e
                     | Inr cc3 \<Rightarrow>
                         (case chat_expect cc3 (CHR ''6'') of
                            Inl e \<Rightarrow> Inl e
                          | Inr cc4 \<Rightarrow>
                              (case chat_expect cc4 (CHR ''n'') of
                                 Inl e \<Rightarrow> Inl e
                               | Inr cc5 \<Rightarrow> Inr (cc5, what)))))
      else Inr (cc, what))"

text \<open>
  The end of the echoed line: \<^verbatim>\<open>chat_expect(cc, '\r'); chat_expect_maybe(cc, '\r');
  chat_expect(cc, '\n');\<close>
\<close>

definition talk_line_end :: "platform \<Rightarrow> chat \<Rightarrow> fatal + chat" where
  "talk_line_end P cc =
     (case chat_expect cc (CHR 0x0D) of
        Inl e \<Rightarrow> Inl e
      | Inr cc1 \<Rightarrow>
          (case chat_expect_maybe P cc1 (CHR 0x0D) of
             Inl e \<Rightarrow> Inl e
           | Inr (b, cc2) \<Rightarrow> chat_expect cc2 (CHR 0x0A)))"

text \<open>
  \<open>what\<close> is the content of the NUL-terminated string the caller passes.
\<close>

definition chat_talk_at :: "platform \<Rightarrow> chat \<Rightarrow> string \<Rightarrow> int \<Rightarrow> fatal + chat" where
  "chat_talk_at P cc what flags =
     (case (if and flags CHAT_SWALLOW_PROMPT \<noteq> 0 then chat_swallow_prompt P cc else Inr cc) of
        Inl e \<Rightarrow> Inl e
      | Inr cc1 \<Rightarrow>
          (case talk_send what (chat_to cc1) of
             Inl e \<Rightarrow> Inl e
           | Inr out \<Rightarrow>
               (case talk_first P (cc1\<lparr>chat_to := out\<rparr>) what flags of
                  Inl e \<Rightarrow> Inl e
                | Inr (cc2, what') \<Rightarrow>
                    (case chat_expect_each cc2 what' of
                       Inl e \<Rightarrow> Inl e
                     | Inr cc3 \<Rightarrow> talk_line_end P cc3))))"

text \<open>The two ABIs, with the whitespace of the C locale.\<close>

definition c_isspace :: "char \<Rightarrow> bool" where
  "c_isspace c = (c = CHR '' '' \<or> (9::nat) \<le> of_char c \<and> (of_char c :: nat) \<le> 13)"

definition signed_char_abi :: platform where
  "signed_char_abi = \<lparr>char_signed = True, isspace = c_isspace\<rparr>"

definition unsigned_char_abi :: platform where
  "unsigned_char_abi = \<lparr>char_signed = False, isspace = c_isspace\<rparr>"

definition fresh :: ostream where
  "fresh = \<lparr>buffered = [], sent = [], credit = None\<rparr>"

section \<open>Notions used to state the properties\<close>

text \<open>
  The locals and the outbound stream after the \<^verbatim>\<open>switch\<close> has handled the bytes of a list in
  turn: the state the loop is in once it has read a stretch of bytes without \<^verbatim>\<open>#\<close> and \<^verbatim>\<open>$\<close>.
\<close>

fun swallow_bytes :: "scanner \<Rightarrow> ostream \<Rightarrow> string \<Rightarrow> fatal + (scanner \<times> ostream)" where
  "swallow_bytes sc out [] = Inr (sc, out)"
| "swallow_bytes sc out (c # cs) =
     (case swallow_switch sc out c of
        Inl e \<Rightarrow> Inl e
      | Inr (sc', out') \<Rightarrow> swallow_bytes sc' out' cs)"

text \<open>The reply to a status query with argument \<open>arg\<close>, and the outbound stream once the reply
  is written and flushed.\<close>

definition status_reply :: "32 word \<Rightarrow> string" where
  "status_reply arg =
     (if arg = 5 then ESC # ''[0n'' else if arg = 6 then ESC # ''[25;80R'' else [])"

definition after_reply :: "32 word \<Rightarrow> ostream \<Rightarrow> ostream" where
  "after_reply arg out =
     out\<lparr>buffered := [], sent := sent out @ buffered out @ status_reply arg,
         credit := map_option (\<lambda>k. k - (if arg = 5 \<or> arg = 6 then 2 else 1)) (credit out)\<rparr>"

text \<open>
  The value of a string of decimal digits, and the value that the scanner computes for
  it in its 32-bit argument.
\<close>

definition decimal_from :: "nat \<Rightarrow> string \<Rightarrow> nat" where
  "decimal_from a ds = foldl (\<lambda>a c. 10 * a + (of_char c - 48)) a ds"

definition decimal :: "string \<Rightarrow> nat" where
  "decimal ds = decimal_from 0 ds"

definition csi_digits :: "32 word \<Rightarrow> string \<Rightarrow> 32 word" where
  "csi_digits a ds = foldl (\<lambda>w c. 10 * w + of_char c - of_char (CHR ''0'')) a ds"

section \<open>Facts about the primitives\<close>

lemma int_of_char_eq_EOF:
  "int_of_char P c = EOF \<longleftrightarrow> char_signed P \<and> c = CHR 0xFF"
proof -
  have b: "(of_char c :: int) < 256" "0 \<le> (of_char c :: int)"
    by (cases c; simp)+
  have "(of_char c :: int) = 255 \<longleftrightarrow> c = CHR 0xFF"
    using of_char_eq_iff [of c "CHR 0xFF", where ?'a = int] by simp
  with b show ?thesis
    by (auto simp: int_of_char_def EOF_def)
qed

lemma char_of_int_of_char:
  "char_of (int_of_char P c) = c"
proof -
  have "char_of (of_char c - 256 :: int) = char_of (take_bit 8 (of_char c - 256 :: int))"
    by (simp add: char_of_take_bit_eq)
  also have "take_bit 8 (of_char c - 256 :: int) = take_bit 8 (of_char c :: int)"
    by (simp add: take_bit_eq_mod)
  also have "char_of (take_bit 8 (of_char c :: int)) = c"
    by (simp add: char_of_take_bit_eq)
  finally show ?thesis
    by (simp add: int_of_char_def)
qed

lemma ungetc_int_of_char:
  "ungetc (int_of_char P c) f = (if char_signed P \<and> c = CHR 0xFF then f else c # f)"
  by (simp add: ungetc_def int_of_char_eq_EOF char_of_int_of_char)

lemma chat_getc_Nil:
  "chat_getc \<lparr>chat_to = t, chat_from = []\<rparr> = chat_die"
  by (simp add: chat_getc_def getc_def)

lemma chat_getc_Cons:
  "chat_getc \<lparr>chat_to = t, chat_from = c # f\<rparr> = Inr (c, \<lparr>chat_to = t, chat_from = f\<rparr>)"
  by (simp add: chat_getc_def getc_def)

lemma chat_expect_Nil:
  "chat_expect \<lparr>chat_to = t, chat_from = []\<rparr> e = chat_die"
  by (simp add: chat_expect_def chat_getc_Nil chat_die_def)

lemma chat_expect_Cons:
  "chat_expect \<lparr>chat_to = t, chat_from = c # f\<rparr> e =
     (if c = e then Inr \<lparr>chat_to = t, chat_from = f\<rparr> else Inl (Die ECOMM (Expected_found e c)))"
  by (simp add: chat_expect_def chat_getc_def getc_def)

lemma chat_expect_maybe_Nil:
  "chat_expect_maybe P \<lparr>chat_to = t, chat_from = []\<rparr> e = chat_die"
  by (simp add: chat_expect_maybe_def chat_getc_Nil chat_die_def)

lemma chat_expect_maybe_Cons:
  "chat_expect_maybe P \<lparr>chat_to = t, chat_from = c # f\<rparr> e =
     (if c = e then Inr (True, \<lparr>chat_to = t, chat_from = f\<rparr>)
      else Inr (False, \<lparr>chat_to = t, chat_from = (if char_signed P \<and> c = CHR 0xFF then f else c # f)\<rparr>))"
  by (simp add: chat_expect_maybe_def chat_getc_Cons ungetc_int_of_char)

lemma chat_expect_maybe_match:
  "chat_expect_maybe P \<lparr>chat_to = t, chat_from = e # f\<rparr> e = Inr (True, \<lparr>chat_to = t, chat_from = f\<rparr>)"
  by (simp add: chat_expect_maybe_Cons)

lemma chat_expect_maybe_unread:
  assumes "c \<noteq> e" and "\<not> (char_signed P \<and> c = CHR 0xFF)"
  shows "chat_expect_maybe P \<lparr>chat_to = t, chat_from = c # f\<rparr> e =
           Inr (False, \<lparr>chat_to = t, chat_from = c # f\<rparr>) \<and>
         chat_getc \<lparr>chat_to = t, chat_from = c # f\<rparr> = Inr (c, \<lparr>chat_to = t, chat_from = f\<rparr>)"
  using assms by (auto simp add: chat_expect_maybe_Cons chat_getc_Cons)

lemma chat_expect_each_echo:
  "chat_expect_each \<lparr>chat_to = t, chat_from = what @ rest\<rparr> what = Inr \<lparr>chat_to = t, chat_from = rest\<rparr>"
  by (induction what) (simp_all add: chat_expect_Cons)

lemma chat_expect_each_Inr:
  "chat_expect_each \<lparr>chat_to = t, chat_from = f\<rparr> what = Inr cc' \<longleftrightarrow>
     (\<exists>rest. f = what @ rest \<and> cc' = \<lparr>chat_to = t, chat_from = rest\<rparr>)"
proof (induction what arbitrary: f)
  case Nil
  show ?case by auto
next
  case (Cons c what)
  show ?case
  proof (cases f)
    case Nil
    then show ?thesis by (simp add: chat_expect_Nil chat_die_def)
  next
    case (Cons b f')
    then show ?thesis
      using Cons.IH [of f'] by (auto simp: chat_expect_Cons)
  qed
qed

lemma talk_send_accepts:
  assumes "accepts 3 out"
  shows "talk_send what out =
           Inr (out\<lparr>buffered := [], sent := sent out @ buffered out @ what @ [CHR 0x0A],
                    credit := map_option (\<lambda>k. k - 3) (credit out)\<rparr>)"
  using assms
  by (cases out) (auto simp: talk_send_def fputs_def putc_def fflush_def stream_op_def accepts_def
        split: option.splits nat.splits)

lemma fputs_flush_accepts:
  assumes "accepts 2 out"
  shows "(case fputs s out of None \<Rightarrow> None | Some out1 \<Rightarrow> fflush out1) =
           Some (out\<lparr>buffered := [], sent := sent out @ buffered out @ s,
                     credit := map_option (\<lambda>k. k - 2) (credit out)\<rparr>)"
  using assms
  by (cases out) (auto simp: fputs_def fflush_def stream_op_def accepts_def
        split: option.splits nat.splits)

lemma fflush_accepts:
  assumes "accepts 1 out"
  shows "fflush out =
           Some (out\<lparr>buffered := [], sent := sent out @ buffered out,
                     credit := map_option (\<lambda>k. k - 1) (credit out)\<rparr>)"
  using assms
  by (cases out) (auto simp: fflush_def stream_op_def accepts_def
        split: option.splits nat.splits)

section \<open>Facts about the scanner\<close>

lemma is_digit_n [simp]: "\<not> is_digit (CHR ''n'')"
  by (simp add: is_digit_def)

lemma swallow_switch_n:
  assumes "state sc = S_AFTER_CSI" and "accepts 2 out"
  shows "swallow_switch sc out (CHR ''n'') = Inr (sc\<lparr>state := S_NORMAL\<rparr>, after_reply (csi_arg sc) out)"
proof -
  have a1: "accepts 1 out"
    using assms(2) by (auto simp: accepts_def split: option.splits)
  consider "csi_arg sc = 5" | "csi_arg sc = 6" | "csi_arg sc \<noteq> 5" "csi_arg sc \<noteq> 6"
    by blast
  then show ?thesis
  proof cases
    case 1
    with assms(1) fputs_flush_accepts [OF assms(2), of "ESC # ''[0n''"] show ?thesis
      by (auto simp: swallow_switch_def after_reply_def status_reply_def split: option.splits)
  next
    case 2
    with assms(1) fputs_flush_accepts [OF assms(2), of "ESC # ''[25;80R''"] show ?thesis
      by (auto simp: swallow_switch_def after_reply_def status_reply_def split: option.splits)
  next
    case 3
    with assms(1) fflush_accepts [OF a1] show ?thesis
      by (simp add: swallow_switch_def after_reply_def status_reply_def)
  qed
qed

lemma swallow_loop_prefix:
  assumes "CHR ''#'' \<notin> set pre" and "CHR ''$'' \<notin> set pre"
  shows "swallow_loop P sc (pre @ ys) out =
           (case swallow_bytes sc out pre of
              Inl e \<Rightarrow> Inl e
            | Inr (sc', out') \<Rightarrow> swallow_loop P sc' ys out')"
  using assms
proof (induction pre arbitrary: sc out)
  case Nil
  then show ?case by simp
next
  case (Cons c pre)
  then show ?case
    by (cases "swallow_switch sc out c") auto
qed

lemma swallow_loop_eof_fatal:
  "\<exists>e. swallow_loop P sc [] out = Inl e"
  by (simp add: Let_def chat_die_def)

lemma swallow_loop_no_prompt_fatal:
  assumes "CHR ''#'' \<notin> set xs" and "CHR ''$'' \<notin> set xs"
  shows "\<exists>e. swallow_loop P sc xs out = Inl e"
  using assms
proof (induction xs arbitrary: sc out)
  case Nil
  show ?case by (rule swallow_loop_eof_fatal)
next
  case (Cons c xs)
  then show ?case
    by (cases "swallow_switch sc out c") auto
qed

lemma swallow_switch_pre_prompt:
  assumes "swallow_switch sc out c = Inr (sc', out')"
  shows "pre_prompt sc' = (if state sc = S_NORMAL \<and> c \<noteq> ESC then pre_prompt sc @ [c] else pre_prompt sc)"
  using assms
  by (cases "state sc")
     (auto simp: swallow_switch_def chat_die_def split: if_splits option.splits)

lemma swallow_loop_eof:
  "swallow_loop P sc [] out =
     Inl (Die ECOMM (Text (if growable_string_trim_trailing_whitespace P (pre_prompt sc) = []
                           then ''lost connection to child''
                           else growable_string_trim_trailing_whitespace P (pre_prompt sc))))"
  by (simp add: Let_def chat_die_def growable_string_c_str_def)


lemma swallow_bytes_plain:
  assumes "ESC \<notin> set xs"
  shows "swallow_bytes \<lparr>csi_arg = a, state = S_NORMAL, pre_prompt = b\<rparr> out xs =
           Inr (\<lparr>csi_arg = a, state = S_NORMAL, pre_prompt = b @ xs\<rparr>, out)"
  using assms
proof (induction xs arbitrary: b)
  case Nil
  show ?case by simp
next
  case (Cons c xs)
  then show ?case
    by (auto simp: swallow_switch_def)
qed

lemma is_digit_of_char:
  assumes "is_digit c"
  shows "(of_char c :: 32 word) - of_char (CHR ''0'') = of_nat (of_char c - 48)"
proof -
  have "(48::nat) \<le> of_char c" using assms by (simp add: is_digit_def)
  then have "(of_nat (of_char c - 48) :: 32 word) = of_nat (of_char c) - of_nat 48"
    by (rule of_nat_diff)
  then show ?thesis by (simp add: of_nat_of_char)
qed

lemma word_of_nat_mod32:
  "(of_nat (n mod 2 ^ 32) :: 32 word) = of_nat n"
  by (subst word_of_nat_eq_iff) (simp add: take_bit_eq_mod)




lemma csi_digit_step:
  assumes "is_digit c"
  shows "10 * w + of_char c - of_char (CHR ''0'') =
           (of_nat ((10 * unat w + (of_char c - 48)) mod 2 ^ 32) :: 32 word)"
proof -
  have "(of_nat ((10 * unat w + (of_char c - 48)) mod 2 ^ 32) :: 32 word) =
          of_nat (10 * unat w + (of_char c - 48))"
    by (rule word_of_nat_mod32)
  also have "\<dots> = 10 * w + of_nat (of_char c - 48)"
    by simp
  also have "\<dots> = 10 * w + of_char c - of_char (CHR ''0'')"
    using is_digit_of_char [OF assms] by (simp add: algebra_simps)
  finally show ?thesis by (rule sym)
qed

lemma swallow_switch_digit:
  assumes "state sc = S_AFTER_CSI" and "is_digit c"
  shows "swallow_switch sc out c =
           Inr (sc\<lparr>csi_arg := of_nat ((10 * unat (csi_arg sc) + (of_char c - 48)) mod 2 ^ 32)\<rparr>, out)"
proof -
  have "swallow_switch sc out c =
          Inr (sc\<lparr>csi_arg := 10 * csi_arg sc + of_char c - of_char (CHR ''0'')\<rparr>, out)"
    using assms by (simp add: swallow_switch_def)
  then show ?thesis
    by (simp only: csi_digit_step [OF assms(2)])
qed

lemma csi_digits_decimal:
  assumes "list_all is_digit ds"
  shows "csi_digits (of_nat a) ds = of_nat (decimal_from a ds mod 2 ^ 32)"
  using assms
proof (induction ds arbitrary: a)
  case Nil
  show ?case by (simp only: word_of_nat_mod32) (simp add: csi_digits_def decimal_from_def)
next
  case (Cons c ds)
  then have d: "is_digit c" and ds: "list_all is_digit ds" by simp_all
  have step: "10 * of_nat a + of_char c - of_char (CHR ''0'') = (of_nat (10 * a + (of_char c - 48)) :: 32 word)"
    using is_digit_of_char [OF d] by (simp add: algebra_simps)
  have "csi_digits (of_nat a) (c # ds) = csi_digits (10 * of_nat a + of_char c - of_char (CHR ''0'')) ds"
    by (simp add: csi_digits_def)
  also have "\<dots> = csi_digits (of_nat (10 * a + (of_char c - 48))) ds"
    by (simp only: step)
  also have "\<dots> = of_nat (decimal_from (10 * a + (of_char c - 48)) ds mod 2 ^ 32)"
    by (rule Cons.IH [OF ds])
  also have "decimal_from (10 * a + (of_char c - 48)) ds = decimal_from a (c # ds)"
    by (simp add: decimal_from_def)
  finally show ?case .
qed

lemma swallow_bytes_digits:
  assumes "list_all is_digit ds"
  shows "swallow_bytes \<lparr>csi_arg = a, state = S_AFTER_CSI, pre_prompt = b\<rparr> out ds =
           Inr (\<lparr>csi_arg = csi_digits a ds, state = S_AFTER_CSI, pre_prompt = b\<rparr>, out)"
  using assms
proof (induction ds arbitrary: a)
  case Nil
  then show ?case by (simp add: csi_digits_def)
next
  case (Cons c ds)
  then show ?case
    by (simp add: swallow_switch_def csi_digits_def)
qed

lemma digits_no_prompt:
  assumes "list_all is_digit ds"
  shows "CHR ''#'' \<notin> set ds" and "CHR ''$'' \<notin> set ds"
proof -
  have "\<not> is_digit (CHR ''#'')" "\<not> is_digit (CHR ''$'')"
    by (simp_all add: is_digit_def)
  with assms show "CHR ''#'' \<notin> set ds" and "CHR ''$'' \<notin> set ds"
    by (auto simp: list_all_iff)
qed

lemma status_query_reply:
  assumes "list_all is_digit ds" and "accepts 2 out"
  shows "chat_swallow_prompt P \<lparr>chat_to = out, chat_from = ESC # CHR ''['' # ds @ CHR ''n'' # CHR ''$'' # CHR '' '' # rest\<rparr> =
           Inr \<lparr>chat_to = after_reply (of_nat (decimal ds mod 2 ^ 32)) out, chat_from = rest\<rparr>"
proof -
  let ?tail = "CHR ''n'' # CHR ''$'' # CHR '' '' # rest"
  let ?arg = "(of_nat (decimal ds mod 2 ^ 32) :: 32 word)"
  let ?sc = "\<lparr>csi_arg = ?arg, state = S_AFTER_CSI, pre_prompt = []\<rparr>"
  have arg: "csi_digits 0 ds = ?arg"
    using csi_digits_decimal [OF assms(1), of 0] by (simp only: decimal_def semiring_1_class.of_nat_0)
  have "swallow_loop P scanner_init (ESC # CHR ''['' # ds @ ?tail) out =
          swallow_loop P \<lparr>csi_arg = 0, state = S_AFTER_CSI, pre_prompt = []\<rparr> (ds @ ?tail) out"
    by (simp add: scanner_init_def swallow_switch_def ESC_def)
  also have "\<dots> = (case swallow_bytes \<lparr>csi_arg = 0, state = S_AFTER_CSI, pre_prompt = []\<rparr> out ds of
                      Inl e \<Rightarrow> Inl e
                    | Inr (sc', out') \<Rightarrow> swallow_loop P sc' ?tail out')"
    by (rule swallow_loop_prefix [OF digits_no_prompt [OF assms(1)]])
  also have "\<dots> = swallow_loop P ?sc ?tail out"
    by (simp only: swallow_bytes_digits [OF assms(1)] arg sum.case prod.case)
  also have "\<dots> = Inr (CHR '' '' # rest, after_reply ?arg out)"
    using swallow_switch_n [of ?sc out, OF _ assms(2)] by simp
  finally show ?thesis
    by (simp add: chat_swallow_prompt_def swallow_prompt_from_def chat_expect_Cons)
qed



section \<open>Facts about the echo protocol\<close>

lemma talk_line_end_Inr:
  "talk_line_end P \<lparr>chat_to = t, chat_from = f\<rparr> = Inr cc' \<longleftrightarrow>
     (\<exists>rest. (f = CHR 0x0D # CHR 0x0A # rest \<or> f = CHR 0x0D # CHR 0x0D # CHR 0x0A # rest \<or>
              char_signed P \<and> f = CHR 0x0D # CHR 0xFF # CHR 0x0A # rest) \<and>
             cc' = \<lparr>chat_to = t, chat_from = rest\<rparr>)"
proof (cases f)
  case Nil
  then show ?thesis by (simp add: talk_line_end_def chat_expect_Nil chat_die_def)
next
  case f: (Cons a f1)
  show ?thesis
  proof (cases f1)
    case Nil
    with f show ?thesis
      by (auto simp: talk_line_end_def chat_expect_Cons chat_expect_maybe_Nil chat_die_def)
  next
    case f1: (Cons b f2)
    show ?thesis
    proof (cases f2)
      case Nil
      with f f1 show ?thesis
        by (auto simp: talk_line_end_def chat_expect_Cons chat_expect_maybe_Cons chat_expect_Nil chat_die_def)
    next
      case (Cons c f3)
      with f f1 show ?thesis
        by (auto simp: talk_line_end_def chat_expect_Cons chat_expect_maybe_Cons)
    qed
  qed
qed

lemma talk_first_query:
  assumes "and flags CHAT_SWALLOW_PROMPT \<noteq> 0" and "what \<noteq> []" and "hd what \<noteq> ESC"
  shows "talk_first P \<lparr>chat_to = t, chat_from = ESC # CHR ''['' # CHR ''6'' # CHR ''n'' # f\<rparr> what flags =
           Inr (\<lparr>chat_to = t, chat_from = f\<rparr>, what)"
proof -
  have "ESC \<noteq> CHR 0xFF" by (simp add: ESC_def)
  with assms show ?thesis
    by (auto simp: talk_first_def chat_expect_maybe_Cons chat_expect_Cons)
qed

lemma talk_first_mismatch:
  assumes "and flags CHAT_SWALLOW_PROMPT \<noteq> 0" and "what \<noteq> []"
    and "b \<noteq> hd what" and "b \<noteq> ESC" and "\<not> (char_signed P \<and> b = CHR 0xFF)"
  shows "talk_first P \<lparr>chat_to = t, chat_from = b # f\<rparr> what flags =
           Inr (\<lparr>chat_to = t, chat_from = b # f\<rparr>, what)"
  using assms by (auto simp: talk_first_def chat_expect_maybe_Cons)

section \<open>The properties\<close>

text \<open>
  C1. For every command text without a newline byte, \<^verbatim>\<open>chat_talk_at\<close> called without
  \<^verbatim>\<open>CHAT_SWALLOW_PROMPT\<close>, on an inbound stream that starts with the command text followed
  by CR LF, returns normally and leaves the inbound stream right after the LF. The outbound
  stream is one that accepts the three operations of the call (write, write, flush), as
  that of a child that echoes is; it then holds the command text and a newline, flushed.
\<close>

theorem talk_echo_ok:
  assumes "CHR 0x0A \<notin> set what"
    and "and flags CHAT_SWALLOW_PROMPT = 0"
    and "accepts 3 out"
  shows "chat_talk_at P \<lparr>chat_to = out, chat_from = what @ [CHR 0x0D, CHR 0x0A] @ rest\<rparr> what flags =
           Inr \<lparr>chat_to = out\<lparr>buffered := [], sent := sent out @ buffered out @ what @ [CHR 0x0A],
                                 credit := map_option (\<lambda>k. k - 3) (credit out)\<rparr>,
                chat_from = rest\<rparr>"
proof -
  let ?out = "out\<lparr>buffered := [], sent := sent out @ buffered out @ what @ [CHR 0x0A],
                    credit := map_option (\<lambda>k. k - 3) (credit out)\<rparr>"
  have first: "talk_first P \<lparr>chat_to = ?out, chat_from = what @ CHR 0x0D # CHR 0x0A # rest\<rparr> what flags =
                 Inr (\<lparr>chat_to = ?out, chat_from = what @ CHR 0x0D # CHR 0x0A # rest\<rparr>, what)"
    using assms(2) by (simp add: talk_first_def)
  have line_end: "talk_line_end P \<lparr>chat_to = ?out, chat_from = CHR 0x0D # CHR 0x0A # rest\<rparr> =
                    Inr \<lparr>chat_to = ?out, chat_from = rest\<rparr>"
    by (simp add: talk_line_end_def chat_expect_Cons chat_expect_maybe_Cons)
  show ?thesis
    using assms(2)
    by (simp add: chat_talk_at_def talk_send_accepts [OF assms(3)] first chat_expect_each_echo line_end)
qed

theorem talk_echo_ok_witness:
  "CHR 0x0A \<notin> set ''echo hi'' \<and> and (0::int) CHAT_SWALLOW_PROMPT = 0 \<and> accepts 3 fresh \<and>
   chat_talk_at signed_char_abi
     \<lparr>chat_to = fresh, chat_from = ''echo hi'' @ [CHR 0x0D, CHR 0x0A] @ ''hi''\<rparr> ''echo hi'' 0 =
   Inr \<lparr>chat_to = \<lparr>buffered = [], sent = ''echo hi'' @ [CHR 0x0A], credit = None\<rparr>,
        chat_from = ''hi''\<rparr>"
proof -
  have h1: "CHR 0x0A \<notin> set ''echo hi''" by simp
  have h2: "and (0::int) CHAT_SWALLOW_PROMPT = 0" by simp
  have h3: "accepts 3 fresh" by (simp add: accepts_def fresh_def)
  show ?thesis
    using h1 h2 h3 talk_echo_ok [OF h1 h2 h3, of signed_char_abi "''hi''"]
    by (simp add: fresh_def)
qed

text \<open>
  C2. With \<^verbatim>\<open>CHAT_SWALLOW_PROMPT\<close>, a first inbound byte that is neither the first byte of
  the command nor ESC is to end the exchange fatally. Where \<^verbatim>\<open>char\<close> is signed the byte 0xFF
  is dropped by the failed \<^verbatim>\<open>ungetc\<close> of \<^verbatim>\<open>chat_expect_maybe\<close> instead, and the bytes after it
  are taken for the echo: the call returns normally. Where \<^verbatim>\<open>char\<close> is unsigned the same
  input is fatal.
\<close>

theorem first_byte_0xFF_not_fatal:
  "chat_talk_at signed_char_abi
     \<lparr>chat_to = fresh, chat_from = ''$ '' @ [CHR 0xFF] @ ''ls'' @ [CHR 0x0D, CHR 0x0A]\<rparr>
     ''ls'' CHAT_SWALLOW_PROMPT =
     Inr \<lparr>chat_to = \<lparr>buffered = [], sent = ''ls'' @ [CHR 0x0A], credit = None\<rparr>, chat_from = []\<rparr> \<and>
   chat_talk_at unsigned_char_abi
     \<lparr>chat_to = fresh, chat_from = ''$ '' @ [CHR 0xFF] @ ''ls'' @ [CHR 0x0D, CHR 0x0A]\<rparr>
     ''ls'' CHAT_SWALLOW_PROMPT =
     Inl (Die ECOMM (Expected_found (CHR ''l'') (CHR 0xFF)))"
  by (simp add: chat_talk_at_def CHAT_SWALLOW_PROMPT_def chat_swallow_prompt_def
      swallow_prompt_from_def talk_send_def fputs_def putc_def fflush_def stream_op_def fresh_def
      talk_first_def chat_expect_Cons talk_line_end_def chat_expect_maybe_Cons ESC_def
      signed_char_abi_def unsigned_char_abi_def)

text \<open>
  The rest of C2 holds with either kind of \<^verbatim>\<open>char\<close>: a status query ESC [ 6 n ahead of the
  echo is consumed, nothing but the command and its newline is written, and the echo is
  then verified from its first byte; and every first byte other than the first byte of the
  command, ESC and the 0xFF above is fatal.
\<close>

lemma talk_absorbs_status_query:
  assumes "and flags CHAT_SWALLOW_PROMPT \<noteq> 0" and "what \<noteq> []" and "hd what \<noteq> ESC"
    and "chat_swallow_prompt P cc =
           Inr \<lparr>chat_to = out,
                chat_from = ESC # CHR ''['' # CHR ''6'' # CHR ''n'' # what @ CHR 0x0D # CHR 0x0A # rest\<rparr>"
    and "accepts 3 out"
  shows "chat_talk_at P cc what flags =
           Inr \<lparr>chat_to = out\<lparr>buffered := [], sent := sent out @ buffered out @ what @ [CHR 0x0A],
                                 credit := map_option (\<lambda>k. k - 3) (credit out)\<rparr>,
                chat_from = rest\<rparr>"
proof -
  have line_end: "talk_line_end P \<lparr>chat_to = t, chat_from = CHR 0x0D # CHR 0x0A # rest\<rparr> =
                    Inr \<lparr>chat_to = t, chat_from = rest\<rparr>" for t
    by (simp add: talk_line_end_def chat_expect_Cons chat_expect_maybe_Cons)
  show ?thesis
    using assms(1)
    by (simp add: chat_talk_at_def assms(4) talk_send_accepts [OF assms(5)]
        talk_first_query [OF assms(1-3)] chat_expect_each_echo line_end)
qed

lemma talk_status_query_race_ls:
  "chat_talk_at P
     \<lparr>chat_to = fresh, chat_from = ''$ '' @ [ESC] @ ''[6nls'' @ [CHR 0x0D, CHR 0x0A]\<rparr>
     ''ls'' CHAT_SWALLOW_PROMPT =
     Inr \<lparr>chat_to = \<lparr>buffered = [], sent = ''ls'' @ [CHR 0x0A], credit = None\<rparr>, chat_from = []\<rparr>"
proof -
  have sw: "chat_swallow_prompt P \<lparr>chat_to = fresh, chat_from = ''$ '' @ [ESC] @ ''[6nls'' @ [CHR 0x0D, CHR 0x0A]\<rparr>
      = Inr \<lparr>chat_to = fresh, chat_from = ESC # CHR ''['' # CHR ''6'' # CHR ''n'' # ''ls'' @ CHR 0x0D # CHR 0x0A # []\<rparr>"
    by (simp add: chat_swallow_prompt_def swallow_prompt_from_def chat_expect_Cons)
  have "and CHAT_SWALLOW_PROMPT CHAT_SWALLOW_PROMPT \<noteq> 0" by (simp add: CHAT_SWALLOW_PROMPT_def)
  moreover have "hd ''ls'' \<noteq> ESC" by (simp add: ESC_def)
  moreover have "accepts 3 fresh" by (simp add: accepts_def fresh_def)
  ultimately show ?thesis
    using talk_absorbs_status_query [OF _ _ _ sw, of CHAT_SWALLOW_PROMPT]
    by (simp add: fresh_def)
qed

lemma talk_first_byte_fatal:
  assumes "and flags CHAT_SWALLOW_PROMPT \<noteq> 0" and "what \<noteq> []"
    and "b \<noteq> hd what" and "b \<noteq> ESC" and "\<not> (char_signed P \<and> b = CHR 0xFF)"
    and "chat_swallow_prompt P cc = Inr \<lparr>chat_to = out, chat_from = b # f\<rparr>"
    and "accepts 3 out"
  shows "chat_talk_at P cc what flags = Inl (Die ECOMM (Expected_found (hd what) b))"
proof -
  from assms(2) obtain c w where what: "what = c # w" by (cases what) auto
  have "chat_expect_each \<lparr>chat_to = t, chat_from = b # f\<rparr> what =
          Inl (Die ECOMM (Expected_found (hd what) b))" for t
    using assms(3) by (simp add: what chat_expect_Cons)
  then show ?thesis
    using assms(1)
    by (simp add: chat_talk_at_def assms(6) talk_send_accepts [OF assms(7)]
        talk_first_mismatch [OF assms(1-5)])
qed



text \<open>
  C4. A \<^verbatim>\<open>#\<close> or \<^verbatim>\<open>$\<close> ends the loop at once, whatever the locals of the scanner are, state
  included; the scanner then requires the next byte to be a space: it returns if it is one,
  and fails fatally if it is another byte or the end of input. For a whole run: after any
  bytes \<open>pre\<close> without \<^verbatim>\<open>#\<close> and \<^verbatim>\<open>$\<close>, the first \<^verbatim>\<open>#\<close> or \<^verbatim>\<open>$\<close> ends the scan in this way.
\<close>

theorem prompt_char_ends_scan:
  assumes "c = CHR ''#'' \<or> c = CHR ''$''"
  shows "swallow_loop P sc (c # rest) out = Inr (rest, out) \<and>
         swallow_prompt_from P sc \<lparr>chat_to = out, chat_from = c # rest\<rparr> =
           (case rest of
              [] \<Rightarrow> Inl (Die ECOMM (Text ''lost connection to child''))
            | b # rest' \<Rightarrow>
                if b = CHR '' '' then Inr \<lparr>chat_to = out, chat_from = rest'\<rparr>
                else Inl (Die ECOMM (Expected_found (CHR '' '') b))) \<and>
         (CHR ''#'' \<notin> set pre \<and> CHR ''$'' \<notin> set pre \<longrightarrow>
            chat_swallow_prompt P \<lparr>chat_to = out, chat_from = pre @ c # rest\<rparr> =
              (case swallow_bytes scanner_init out pre of
                 Inl e \<Rightarrow> Inl e
               | Inr (sc', out') \<Rightarrow>
                   (case rest of
                      [] \<Rightarrow> Inl (Die ECOMM (Text ''lost connection to child''))
                    | b # rest' \<Rightarrow>
                        if b = CHR '' '' then Inr \<lparr>chat_to = out', chat_from = rest'\<rparr>
                        else Inl (Die ECOMM (Expected_found (CHR '' '') b)))))"
proof (intro conjI impI)
  show "swallow_loop P sc (c # rest) out = Inr (rest, out)"
    using assms by auto
  then show "swallow_prompt_from P sc \<lparr>chat_to = out, chat_from = c # rest\<rparr> =
           (case rest of
              [] \<Rightarrow> Inl (Die ECOMM (Text ''lost connection to child''))
            | b # rest' \<Rightarrow>
                if b = CHR '' '' then Inr \<lparr>chat_to = out, chat_from = rest'\<rparr>
                else Inl (Die ECOMM (Expected_found (CHR '' '') b)))"
    by (simp add: swallow_prompt_from_def chat_expect_Nil chat_expect_Cons chat_die_def
        split: list.splits)
next
  assume "CHR ''#'' \<notin> set pre \<and> CHR ''$'' \<notin> set pre"
  then have "swallow_loop P scanner_init (pre @ c # rest) out =
               (case swallow_bytes scanner_init out pre of
                  Inl e \<Rightarrow> Inl e
                | Inr (sc', out') \<Rightarrow> swallow_loop P sc' (c # rest) out')"
    by (simp add: swallow_loop_prefix)
  also have "\<dots> = (case swallow_bytes scanner_init out pre of
                      Inl e \<Rightarrow> Inl e
                    | Inr (sc', out') \<Rightarrow> Inr (rest, out'))"
    using assms by (auto split: sum.splits)
  finally show "chat_swallow_prompt P \<lparr>chat_to = out, chat_from = pre @ c # rest\<rparr> =
              (case swallow_bytes scanner_init out pre of
                 Inl e \<Rightarrow> Inl e
               | Inr (sc', out') \<Rightarrow>
                   (case rest of
                      [] \<Rightarrow> Inl (Die ECOMM (Text ''lost connection to child''))
                    | b # rest' \<Rightarrow>
                        if b = CHR '' '' then Inr \<lparr>chat_to = out', chat_from = rest'\<rparr>
                        else Inl (Die ECOMM (Expected_found (CHR '' '') b))))"
    by (simp add: chat_swallow_prompt_def swallow_prompt_from_def chat_expect_Nil chat_expect_Cons
        chat_die_def split: sum.splits list.splits)
qed

theorem prompt_char_ends_scan_witness:
  "(CHR ''$'' = CHR ''#'' \<or> CHR ''$'' = CHR ''$'') \<and>
   (CHR ''#'' \<notin> set (ESC # ''[6'') \<and> CHR ''$'' \<notin> set (ESC # ''[6'')) \<and>
   swallow_loop signed_char_abi \<lparr>csi_arg = 6, state = S_AFTER_CSI, pre_prompt = ''abc''\<rparr> ''$ ls'' fresh =
     Inr ('' ls'', fresh) \<and>
   swallow_prompt_from signed_char_abi \<lparr>csi_arg = 6, state = S_AFTER_CSI, pre_prompt = ''abc''\<rparr>
       \<lparr>chat_to = fresh, chat_from = ''$ ls''\<rparr> =
     Inr \<lparr>chat_to = fresh, chat_from = ''ls''\<rparr> \<and>
   chat_swallow_prompt signed_char_abi \<lparr>chat_to = fresh, chat_from = (ESC # ''[6'') @ ''$ ls''\<rparr> =
     Inr \<lparr>chat_to = fresh, chat_from = ''ls''\<rparr>"
proof -
  have h: "CHR ''$'' = CHR ''#'' \<or> CHR ''$'' = CHR ''$''" by simp
  have p: "CHR ''#'' \<notin> set (ESC # ''[6'') \<and> CHR ''$'' \<notin> set (ESC # ''[6'')"
    by (simp add: ESC_def)
  have b: "swallow_bytes scanner_init fresh (ESC # ''[6'') =
             Inr (\<lparr>csi_arg = 6, state = S_AFTER_CSI, pre_prompt = []\<rparr>, fresh)"
    by (simp add: scanner_init_def swallow_switch_def is_digit_def ESC_def)
  show ?thesis
    using h p b
      prompt_char_ends_scan [OF h, of signed_char_abi
        "\<lparr>csi_arg = 6, state = S_AFTER_CSI, pre_prompt = ''abc''\<rparr>" "'' ls''" fresh "ESC # ''[6''"]
    by simp
qed

text \<open>
  C5. At end of input the scanner fails fatally, whatever its locals are. The diagnostic
  is exactly the buffer of plain bytes with its trailing whitespace trimmed when that is
  not empty, and "lost connection to child" when it is empty. For a whole run: an inbound
  stream without \<^verbatim>\<open>#\<close> and \<^verbatim>\<open>$\<close> always ends fatally, and when it holds no ESC either, the
  buffer is the whole stream and the diagnostic is the stream trimmed, or "lost connection
  to child" when nothing is left of it.
\<close>

theorem eof_diagnostic:
  "swallow_loop P sc [] out =
     Inl (Die ECOMM (Text (if growable_string_trim_trailing_whitespace P (pre_prompt sc) = []
                           then ''lost connection to child''
                           else growable_string_trim_trailing_whitespace P (pre_prompt sc)))) \<and>
   swallow_prompt_from P sc \<lparr>chat_to = out, chat_from = []\<rparr> =
     Inl (Die ECOMM (Text (if growable_string_trim_trailing_whitespace P (pre_prompt sc) = []
                           then ''lost connection to child''
                           else growable_string_trim_trailing_whitespace P (pre_prompt sc)))) \<and>
   (CHR ''#'' \<notin> set xs \<and> CHR ''$'' \<notin> set xs \<longrightarrow>
      (\<exists>e. chat_swallow_prompt P \<lparr>chat_to = out, chat_from = xs\<rparr> = Inl e)) \<and>
   (CHR ''#'' \<notin> set xs \<and> CHR ''$'' \<notin> set xs \<and> ESC \<notin> set xs \<longrightarrow>
      chat_swallow_prompt P \<lparr>chat_to = out, chat_from = xs\<rparr> =
        Inl (Die ECOMM (Text (if growable_string_trim_trailing_whitespace P xs = []
                              then ''lost connection to child''
                              else growable_string_trim_trailing_whitespace P xs))))"
proof (intro conjI impI)
  show eof: "swallow_loop P sc [] out =
     Inl (Die ECOMM (Text (if growable_string_trim_trailing_whitespace P (pre_prompt sc) = []
                           then ''lost connection to child''
                           else growable_string_trim_trailing_whitespace P (pre_prompt sc))))"
    by (rule swallow_loop_eof)
  then show "swallow_prompt_from P sc \<lparr>chat_to = out, chat_from = []\<rparr> =
     Inl (Die ECOMM (Text (if growable_string_trim_trailing_whitespace P (pre_prompt sc) = []
                           then ''lost connection to child''
                           else growable_string_trim_trailing_whitespace P (pre_prompt sc))))"
    by (simp add: swallow_prompt_from_def)
next
  assume "CHR ''#'' \<notin> set xs \<and> CHR ''$'' \<notin> set xs"
  then have "\<exists>e. swallow_loop P scanner_init xs out = Inl e"
    by (simp add: swallow_loop_no_prompt_fatal)
  then show "\<exists>e. chat_swallow_prompt P \<lparr>chat_to = out, chat_from = xs\<rparr> = Inl e"
    by (auto simp: chat_swallow_prompt_def swallow_prompt_from_def)
next
  assume a: "CHR ''#'' \<notin> set xs \<and> CHR ''$'' \<notin> set xs \<and> ESC \<notin> set xs"
  then have "swallow_loop P scanner_init (xs @ []) out =
               (case swallow_bytes scanner_init out xs of
                  Inl e \<Rightarrow> Inl e
                | Inr (sc', out') \<Rightarrow> swallow_loop P sc' [] out')"
    by (intro swallow_loop_prefix) simp_all
  moreover have "swallow_bytes scanner_init out xs =
                   Inr (\<lparr>csi_arg = 0, state = S_NORMAL, pre_prompt = [] @ xs\<rparr>, out)"
    unfolding scanner_init_def using a by (intro swallow_bytes_plain) simp
  ultimately have "swallow_loop P scanner_init xs out =
                     swallow_loop P \<lparr>csi_arg = 0, state = S_NORMAL, pre_prompt = xs\<rparr> [] out"
    by simp
  then show "chat_swallow_prompt P \<lparr>chat_to = out, chat_from = xs\<rparr> =
        Inl (Die ECOMM (Text (if growable_string_trim_trailing_whitespace P xs = []
                              then ''lost connection to child''
                              else growable_string_trim_trailing_whitespace P xs)))"
    by (simp add: chat_swallow_prompt_def swallow_prompt_from_def swallow_loop_eof
        del: swallow_loop.simps)
qed

theorem eof_diagnostic_witness:
  "(CHR ''#'' \<notin> set (''boot failed'' @ [CHR 0x0D, CHR 0x0A]) \<and>
    CHR ''$'' \<notin> set (''boot failed'' @ [CHR 0x0D, CHR 0x0A]) \<and>
    ESC \<notin> set (''boot failed'' @ [CHR 0x0D, CHR 0x0A])) \<and>
   chat_swallow_prompt unsigned_char_abi
     \<lparr>chat_to = fresh, chat_from = ''boot failed'' @ [CHR 0x0D, CHR 0x0A]\<rparr> =
     Inl (Die ECOMM (Text ''boot failed'')) \<and>
   swallow_loop unsigned_char_abi
     \<lparr>csi_arg = 0, state = S_AFTER_ESC, pre_prompt = [CHR 0x0D, CHR 0x0A]\<rparr> [] fresh =
     Inl (Die ECOMM (Text ''lost connection to child''))"
proof -
  have h: "CHR ''#'' \<notin> set (''boot failed'' @ [CHR 0x0D, CHR 0x0A]) \<and>
           CHR ''$'' \<notin> set (''boot failed'' @ [CHR 0x0D, CHR 0x0A]) \<and>
           ESC \<notin> set (''boot failed'' @ [CHR 0x0D, CHR 0x0A])"
    by (simp add: ESC_def)
  show ?thesis
    using h
      eof_diagnostic [of unsigned_char_abi
        "\<lparr>csi_arg = 0, state = S_AFTER_ESC, pre_prompt = [CHR 0x0D, CHR 0x0A]\<rparr>" fresh
        "''boot failed'' @ [CHR 0x0D, CHR 0x0A]"]
    by (simp add: growable_string_trim_trailing_whitespace_def unsigned_char_abi_def c_isspace_def)
qed

text \<open>
  The same for a run with escape sequences in it: the diagnostic is made from the buffer
  that the bytes read have left.
\<close>

lemma swallow_prompt_eof:
  assumes "CHR ''#'' \<notin> set xs" and "CHR ''$'' \<notin> set xs"
    and "swallow_bytes scanner_init out xs = Inr (sc', out')"
  shows "chat_swallow_prompt P \<lparr>chat_to = out, chat_from = xs\<rparr> =
           Inl (Die ECOMM (Text (if growable_string_trim_trailing_whitespace P (pre_prompt sc') = []
                                 then ''lost connection to child''
                                 else growable_string_trim_trailing_whitespace P (pre_prompt sc'))))"
  using swallow_loop_prefix [OF assms(1,2), of P scanner_init "[]" out] assms(3)
  by (simp add: chat_swallow_prompt_def swallow_prompt_from_def swallow_loop_eof
      del: swallow_loop.simps)

text \<open>
  C6. After the echo only CR LF and CR CR LF are to be accepted. Where \<^verbatim>\<open>char\<close> is signed,
  CR 0xFF LF is accepted as well: the 0xFF is read by \<^verbatim>\<open>chat_expect_maybe\<close>, not pushed back,
  and the LF after it satisfies the last \<^verbatim>\<open>chat_expect\<close>. Where \<^verbatim>\<open>char\<close> is unsigned the same
  input is fatal.
\<close>

theorem line_end_accepts_0xFF:
  "chat_talk_at signed_char_abi
     \<lparr>chat_to = fresh, chat_from = ''ls'' @ [CHR 0x0D, CHR 0xFF, CHR 0x0A] @ ''x''\<rparr> ''ls'' 0 =
     Inr \<lparr>chat_to = \<lparr>buffered = [], sent = ''ls'' @ [CHR 0x0A], credit = None\<rparr>, chat_from = ''x''\<rparr> \<and>
   chat_talk_at unsigned_char_abi
     \<lparr>chat_to = fresh, chat_from = ''ls'' @ [CHR 0x0D, CHR 0xFF, CHR 0x0A] @ ''x''\<rparr> ''ls'' 0 =
     Inl (Die ECOMM (Expected_found (CHR 0x0A) (CHR 0xFF)))"
  by (simp add: chat_talk_at_def talk_send_def fputs_def putc_def fflush_def stream_op_def fresh_def
      talk_first_def chat_expect_Cons talk_line_end_def chat_expect_maybe_Cons
      signed_char_abi_def unsigned_char_abi_def)

text \<open>
  The line endings that \<^verbatim>\<open>chat_talk_at\<close> accepts, for either kind of \<^verbatim>\<open>char\<close>: C6 holds where
  \<^verbatim>\<open>char\<close> is unsigned, and CR 0xFF LF is the only other line ending accepted where it is
  signed.
\<close>

lemma talk_returns_iff:
  assumes "and flags CHAT_SWALLOW_PROMPT = 0" and "accepts 3 out"
  shows "(\<exists>cc'. chat_talk_at P \<lparr>chat_to = out, chat_from = f\<rparr> what flags = Inr cc') \<longleftrightarrow>
         (\<exists>rest. f = what @ CHR 0x0D # CHR 0x0A # rest \<or>
                 f = what @ CHR 0x0D # CHR 0x0D # CHR 0x0A # rest \<or>
                 char_signed P \<and> f = what @ CHR 0x0D # CHR 0xFF # CHR 0x0A # rest)"
proof -
  let ?out = "out\<lparr>buffered := [], sent := sent out @ buffered out @ what @ [CHR 0x0A],
                    credit := map_option (\<lambda>k. k - 3) (credit out)\<rparr>"
  have talk: "chat_talk_at P \<lparr>chat_to = out, chat_from = f\<rparr> what flags =
          (case chat_expect_each \<lparr>chat_to = ?out, chat_from = f\<rparr> what of
             Inl e \<Rightarrow> Inl e
           | Inr cc3 \<Rightarrow> talk_line_end P cc3)" for f
    using assms(1) by (simp add: chat_talk_at_def talk_send_accepts [OF assms(2)] talk_first_def)
  show ?thesis
  proof
    assume "\<exists>cc'. chat_talk_at P \<lparr>chat_to = out, chat_from = f\<rparr> what flags = Inr cc'"
    then obtain cc' where r: "chat_talk_at P \<lparr>chat_to = out, chat_from = f\<rparr> what flags = Inr cc'" ..
    then obtain cc3 where e: "chat_expect_each \<lparr>chat_to = ?out, chat_from = f\<rparr> what = Inr cc3"
      and l: "talk_line_end P cc3 = Inr cc'"
      by (auto simp: talk split: sum.splits)
    from e obtain g where g: "f = what @ g" "cc3 = \<lparr>chat_to = ?out, chat_from = g\<rparr>"
      by (auto simp: chat_expect_each_Inr)
    from l g talk_line_end_Inr [of P ?out g cc'] show
      "\<exists>rest. f = what @ CHR 0x0D # CHR 0x0A # rest \<or>
                 f = what @ CHR 0x0D # CHR 0x0D # CHR 0x0A # rest \<or>
                 char_signed P \<and> f = what @ CHR 0x0D # CHR 0xFF # CHR 0x0A # rest"
      by auto
  next
    assume "\<exists>rest. f = what @ CHR 0x0D # CHR 0x0A # rest \<or>
                 f = what @ CHR 0x0D # CHR 0x0D # CHR 0x0A # rest \<or>
                 char_signed P \<and> f = what @ CHR 0x0D # CHR 0xFF # CHR 0x0A # rest"
    then obtain rest g where g: "f = what @ g" and
      "g = CHR 0x0D # CHR 0x0A # rest \<or> g = CHR 0x0D # CHR 0x0D # CHR 0x0A # rest \<or>
       char_signed P \<and> g = CHR 0x0D # CHR 0xFF # CHR 0x0A # rest"
      by auto
    then have "talk_line_end P \<lparr>chat_to = ?out, chat_from = g\<rparr> = Inr \<lparr>chat_to = ?out, chat_from = rest\<rparr>"
      using talk_line_end_Inr [of P ?out g "\<lparr>chat_to = ?out, chat_from = rest\<rparr>"] by blast
    with g show "\<exists>cc'. chat_talk_at P \<lparr>chat_to = out, chat_from = f\<rparr> what flags = Inr cc'"
      by (simp add: talk chat_expect_each_echo)
  qed
qed

text \<open>
  C7. \<^verbatim>\<open>chat_expect_maybe\<close> is to push a mismatching byte back, so that the next read
  returns it. Where \<^verbatim>\<open>char\<close> is signed, the byte 0xFF is \<open>-1\<close> once it is promoted for
  \<^verbatim>\<open>ungetc\<close>, which is \<^verbatim>\<open>EOF\<close>: nothing is pushed back, the byte is lost, and the next read
  returns the byte after it. (\<open>chat_expect_maybe_match\<close> and \<open>chat_expect_maybe_unread\<close>
  are the rest of C7: a matching byte is consumed, and every other mismatching byte is
  pushed back and read again.)
\<close>

theorem expect_maybe_loses_byte:
  "chat_expect_maybe signed_char_abi \<lparr>chat_to = fresh, chat_from = [CHR 0xFF, CHR ''x'']\<rparr> (CHR ''l'') =
     Inr (False, \<lparr>chat_to = fresh, chat_from = [CHR ''x'']\<rparr>) \<and>
   chat_getc \<lparr>chat_to = fresh, chat_from = [CHR ''x'']\<rparr> =
     Inr (CHR ''x'', \<lparr>chat_to = fresh, chat_from = []\<rparr>)"
  by (simp add: chat_expect_maybe_Cons chat_getc_Cons signed_char_abi_def)

text \<open>
  C8, as amended. In state \<^verbatim>\<open>S_AFTER_ESC\<close> a byte other than \<^verbatim>\<open>[\<close>, \<^verbatim>\<open>#\<close> and \<^verbatim>\<open>$\<close> takes the
  scanner back to \<^verbatim>\<open>S_NORMAL\<close> and is dropped: the scan goes on with the same buffer. In
  every iteration that reaches the \<^verbatim>\<open>switch\<close>, the buffer afterwards is the buffer before,
  with the byte appended exactly when the state was \<^verbatim>\<open>S_NORMAL\<close> and the byte is not ESC.
  A \<^verbatim>\<open>#\<close> or \<^verbatim>\<open>$\<close> never reaches the \<^verbatim>\<open>switch\<close>: it ends the loop.
\<close>

theorem pre_prompt_growth:
  "(state sc = S_AFTER_ESC \<and> c \<noteq> CHR ''['' \<and> c \<noteq> CHR ''#'' \<and> c \<noteq> CHR ''$'' \<longrightarrow>
      swallow_switch sc out c = Inr (sc\<lparr>state := S_NORMAL\<rparr>, out) \<and>
      swallow_loop P sc (c # rest) out = swallow_loop P (sc\<lparr>state := S_NORMAL\<rparr>) rest out) \<and>
   (c \<noteq> CHR ''#'' \<and> c \<noteq> CHR ''$'' \<and> swallow_switch sc out c = Inr (sc', out') \<longrightarrow>
      swallow_loop P sc (c # rest) out = swallow_loop P sc' rest out' \<and>
      pre_prompt sc' =
        (if state sc = S_NORMAL \<and> c \<noteq> ESC then pre_prompt sc @ [c] else pre_prompt sc)) \<and>
   (c = CHR ''#'' \<or> c = CHR ''$'' \<longrightarrow> swallow_loop P sc (c # rest) out = Inr (rest, out))"
proof (intro conjI impI)
  assume a: "state sc = S_AFTER_ESC \<and> c \<noteq> CHR ''['' \<and> c \<noteq> CHR ''#'' \<and> c \<noteq> CHR ''$''"
  then show sw: "swallow_switch sc out c = Inr (sc\<lparr>state := S_NORMAL\<rparr>, out)"
    by (simp add: swallow_switch_def)
  from a sw show "swallow_loop P sc (c # rest) out = swallow_loop P (sc\<lparr>state := S_NORMAL\<rparr>) rest out"
    by simp
next
  assume b: "c \<noteq> CHR ''#'' \<and> c \<noteq> CHR ''$'' \<and> swallow_switch sc out c = Inr (sc', out')"
  then show "swallow_loop P sc (c # rest) out = swallow_loop P sc' rest out'"
    by simp
  from b have "swallow_switch sc out c = Inr (sc', out')" by simp
  then show "pre_prompt sc' =
        (if state sc = S_NORMAL \<and> c \<noteq> ESC then pre_prompt sc @ [c] else pre_prompt sc)"
    by (rule swallow_switch_pre_prompt)
next
  assume "c = CHR ''#'' \<or> c = CHR ''$''"
  then show "swallow_loop P sc (c # rest) out = Inr (rest, out)"
    by auto
qed

theorem pre_prompt_growth_witness:
  "(state \<lparr>csi_arg = 0, state = S_AFTER_ESC, pre_prompt = ''ab''\<rparr> = S_AFTER_ESC \<and>
    CHR ''x'' \<noteq> CHR ''['' \<and> CHR ''x'' \<noteq> CHR ''#'' \<and> CHR ''x'' \<noteq> CHR ''$'') \<and>
   swallow_switch \<lparr>csi_arg = 0, state = S_AFTER_ESC, pre_prompt = ''ab''\<rparr> fresh (CHR ''x'') =
     Inr (\<lparr>csi_arg = 0, state = S_NORMAL, pre_prompt = ''ab''\<rparr>, fresh) \<and>
   swallow_loop unsigned_char_abi \<lparr>csi_arg = 0, state = S_AFTER_ESC, pre_prompt = ''ab''\<rparr> ''xy'' fresh =
     swallow_loop unsigned_char_abi \<lparr>csi_arg = 0, state = S_NORMAL, pre_prompt = ''ab''\<rparr> ''y'' fresh \<and>
   pre_prompt \<lparr>csi_arg = 0, state = S_NORMAL, pre_prompt = ''ab''\<rparr> = ''ab'' \<and>
   (CHR ''$'' = CHR ''#'' \<or> CHR ''$'' = CHR ''$'') \<and>
   swallow_loop unsigned_char_abi \<lparr>csi_arg = 0, state = S_AFTER_ESC, pre_prompt = ''ab''\<rparr> ''$ y'' fresh =
     Inr ('' y'', fresh)"
proof -
  let ?sc = "\<lparr>csi_arg = 0, state = S_AFTER_ESC, pre_prompt = ''ab''\<rparr>"
  have sw: "swallow_switch ?sc fresh (CHR ''x'') = Inr (?sc\<lparr>state := S_NORMAL\<rparr>, fresh)"
    by (simp add: swallow_switch_def)
  show ?thesis
    using sw
      pre_prompt_growth [of ?sc "CHR ''x''" fresh unsigned_char_abi "''y''" "?sc\<lparr>state := S_NORMAL\<rparr>" fresh]
      pre_prompt_growth [of ?sc "CHR ''$''" fresh unsigned_char_abi "'' y''"]
    by simp
qed

text \<open>
  C8 as stated fails for the bytes \<^verbatim>\<open>#\<close> and \<^verbatim>\<open>$\<close>, which are other than \<^verbatim>\<open>[\<close>: read in state
  \<^verbatim>\<open>S_AFTER_ESC\<close> they end the loop, they do not take the scanner to \<^verbatim>\<open>S_NORMAL\<close>. On the
  bytes \<^verbatim>\<open>#x$\<close> and a space, the scanner in state \<^verbatim>\<open>S_AFTER_ESC\<close> stops at the \<^verbatim>\<open>#\<close>; had it
  dropped the \<^verbatim>\<open>#\<close> and gone on in \<^verbatim>\<open>S_NORMAL\<close>, it would have stopped at the \<^verbatim>\<open>$\<close>.
\<close>

theorem abandoned_escape_counterexample:
  "state \<lparr>csi_arg = 0, state = S_AFTER_ESC, pre_prompt = []\<rparr> = S_AFTER_ESC \<and>
   CHR ''#'' \<noteq> CHR ''['' \<and>
   swallow_loop unsigned_char_abi \<lparr>csi_arg = 0, state = S_AFTER_ESC, pre_prompt = []\<rparr> ''#x$ '' fresh \<noteq>
   swallow_loop unsigned_char_abi
     (\<lparr>csi_arg = 0, state = S_AFTER_ESC, pre_prompt = []\<rparr>\<lparr>state := S_NORMAL\<rparr>) ''x$ '' fresh"
  by (simp add: swallow_switch_def ESC_def)

text \<open>
  C9. At end of input \<^verbatim>\<open>chat_expect_maybe\<close> does not return false: it fails with the
  communication error "lost connection to child", for every expected byte.
\<close>

theorem expect_maybe_eof_fatal:
  assumes "chat_from cc = []"
  shows "chat_expect_maybe P cc expected = Inl (Die ECOMM (Text ''lost connection to child''))"
  using assms by (simp add: chat_expect_maybe_def chat_getc_def getc_def chat_die_def)

theorem expect_maybe_eof_fatal_witness:
  "chat_from \<lparr>chat_to = fresh, chat_from = []\<rparr> = [] \<and>
   chat_expect_maybe unsigned_char_abi \<lparr>chat_to = fresh, chat_from = []\<rparr> (CHR 0x0D) =
     Inl (Die ECOMM (Text ''lost connection to child''))"
  using expect_maybe_eof_fatal [of "\<lparr>chat_to = fresh, chat_from = []\<rparr>" unsigned_char_abi "CHR 0x0D"]
  by simp

text \<open>
  C10. Each digit byte read in state \<^verbatim>\<open>S_AFTER_CSI\<close> sets the argument to
  \<open>(10 * arg + digit) mod 2 ^ 32\<close>. So there is a digit string whose value is not 5 but
  is 5 modulo \<open>2 ^ 32\<close> (4294967301) for which ESC [ digits n is answered with
  ESC [ 0 n, and one whose value is not 6 but is 6 modulo \<open>2 ^ 32\<close> (4294967302) for which
  it is answered with ESC [ 2 5 ; 8 0 R.
\<close>

theorem csi_arg_wraps:
  "(state sc = S_AFTER_CSI \<and> is_digit c \<longrightarrow>
      swallow_switch sc out c =
        Inr (sc\<lparr>csi_arg := of_nat ((10 * unat (csi_arg sc) + (of_char c - 48)) mod 2 ^ 32)\<rparr>, out)) \<and>
   (\<exists>ds. list_all is_digit ds \<and> decimal ds \<noteq> 5 \<and> decimal ds mod 2 ^ 32 = 5 \<and>
      chat_swallow_prompt P \<lparr>chat_to = fresh, chat_from = ESC # CHR ''['' # ds @ ''n$ ''\<rparr> =
        Inr \<lparr>chat_to = \<lparr>buffered = [], sent = [ESC, CHR ''['', CHR ''0'', CHR ''n''], credit = None\<rparr>,
             chat_from = []\<rparr>) \<and>
   (\<exists>ds. list_all is_digit ds \<and> decimal ds \<noteq> 6 \<and> decimal ds mod 2 ^ 32 = 6 \<and>
      chat_swallow_prompt P \<lparr>chat_to = fresh, chat_from = ESC # CHR ''['' # ds @ ''n$ ''\<rparr> =
        Inr \<lparr>chat_to = \<lparr>buffered = [], sent = [ESC, CHR ''['', CHR ''2'', CHR ''5'', CHR '';'', CHR ''8'', CHR ''0'', CHR ''R''],
                        credit = None\<rparr>,
             chat_from = []\<rparr>)"
proof (intro conjI impI)
  assume "state sc = S_AFTER_CSI \<and> is_digit c"
  then show "swallow_switch sc out c =
        Inr (sc\<lparr>csi_arg := of_nat ((10 * unat (csi_arg sc) + (of_char c - 48)) mod 2 ^ 32)\<rparr>, out)"
    using swallow_switch_digit by blast
next
  have acc: "accepts 2 fresh" by (simp add: accepts_def fresh_def)
  have dig: "list_all is_digit ''4294967301''" by (simp add: is_digit_def)
  have val: "decimal ''4294967301'' = 4294967301" by (simp add: decimal_def decimal_from_def)
  have "chat_swallow_prompt P \<lparr>chat_to = fresh, chat_from = ESC # CHR ''['' # ''4294967301'' @ ''n$ ''\<rparr> =
        Inr \<lparr>chat_to = \<lparr>buffered = [], sent = [ESC, CHR ''['', CHR ''0'', CHR ''n''], credit = None\<rparr>,
             chat_from = []\<rparr>"
    using status_query_reply [OF dig acc, of P "[]"]
    by (simp add: val after_reply_def status_reply_def fresh_def)
  with dig val show "\<exists>ds. list_all is_digit ds \<and> decimal ds \<noteq> 5 \<and> decimal ds mod 2 ^ 32 = 5 \<and>
      chat_swallow_prompt P \<lparr>chat_to = fresh, chat_from = ESC # CHR ''['' # ds @ ''n$ ''\<rparr> =
        Inr \<lparr>chat_to = \<lparr>buffered = [], sent = [ESC, CHR ''['', CHR ''0'', CHR ''n''], credit = None\<rparr>,
             chat_from = []\<rparr>"
    by (intro exI [of _ "''4294967301''"]) simp
next
  have acc: "accepts 2 fresh" by (simp add: accepts_def fresh_def)
  have dig: "list_all is_digit ''4294967302''" by (simp add: is_digit_def)
  have val: "decimal ''4294967302'' = 4294967302" by (simp add: decimal_def decimal_from_def)
  have "chat_swallow_prompt P \<lparr>chat_to = fresh, chat_from = ESC # CHR ''['' # ''4294967302'' @ ''n$ ''\<rparr> =
        Inr \<lparr>chat_to = \<lparr>buffered = [], sent = [ESC, CHR ''['', CHR ''2'', CHR ''5'', CHR '';'', CHR ''8'', CHR ''0'', CHR ''R''],
                        credit = None\<rparr>,
             chat_from = []\<rparr>"
    using status_query_reply [OF dig acc, of P "[]"]
    by (simp add: val after_reply_def status_reply_def fresh_def)
  with dig val show "\<exists>ds. list_all is_digit ds \<and> decimal ds \<noteq> 6 \<and> decimal ds mod 2 ^ 32 = 6 \<and>
      chat_swallow_prompt P \<lparr>chat_to = fresh, chat_from = ESC # CHR ''['' # ds @ ''n$ ''\<rparr> =
        Inr \<lparr>chat_to = \<lparr>buffered = [], sent = [ESC, CHR ''['', CHR ''2'', CHR ''5'', CHR '';'', CHR ''8'', CHR ''0'', CHR ''R''],
                        credit = None\<rparr>,
             chat_from = []\<rparr>"
    by (intro exI [of _ "''4294967302''"]) simp
qed

theorem csi_arg_wraps_witness:
  "(state \<lparr>csi_arg = 429496730, state = S_AFTER_CSI, pre_prompt = []\<rparr> = S_AFTER_CSI \<and> is_digit (CHR ''1'')) \<and>
   swallow_switch \<lparr>csi_arg = 429496730, state = S_AFTER_CSI, pre_prompt = []\<rparr> fresh (CHR ''1'') =
     Inr (\<lparr>csi_arg = 5, state = S_AFTER_CSI, pre_prompt = []\<rparr>, fresh)"
proof -
  have h: "state \<lparr>csi_arg = 429496730, state = S_AFTER_CSI, pre_prompt = []\<rparr> = S_AFTER_CSI \<and> is_digit (CHR ''1'')"
    by (simp add: is_digit_def)
  show ?thesis
    using h csi_arg_wraps [of "\<lparr>csi_arg = 429496730, state = S_AFTER_CSI, pre_prompt = []\<rparr>" "CHR ''1''" fresh]
    by simp
qed

end
